theory Spec2Isabelle
  imports Complex_Main
begin

section \<open>The board and rules collaborator\<close>

text \<open>
  The engine of \<^verbatim>\<open>chess_engine.py\<close> is written against the \<^verbatim>\<open>chess\<close> library, which is
  not part of the repository. What the engine reads of a position directly (the piece on a
  square, the side to move) is data of the model; the rest of a position (castling rights,
  en-passant square, clocks, the library's own move stack) is the component \<open>rest\<close>, of
  which the engine knows nothing. Everything the library decides (legal moves, check,
  mate, applying a move, parsing notation) is a field of the record \<open>rules\<close>, and every
  function of the engine takes the rules as its first argument.
\<close>

datatype color = WHITE | BLACK

datatype piece_type = PAWN | KNIGHT | BISHOP | ROOK | QUEEN | KING

datatype piece = Piece (piece_type: piece_type) (color: color)

text \<open>
  A move of the library: origin, destination, promotion piece and (for variants with
  drops) the dropped piece. \<open>move_bool\<close> is the truth value Python gives a move in a
  condition (\<^verbatim>\<open>if best_move\<close>): false exactly for the null move.
\<close>

record move =
  from_square :: nat
  to_square :: nat
  promotion :: "piece_type option"
  drop_piece :: "piece_type option"

definition move_bool :: "move \<Rightarrow> bool" where
  "move_bool m =
     (from_square m \<noteq> 0 \<or> to_square m \<noteq> 0 \<or> promotion m \<noteq> None \<or> drop_piece m \<noteq> None)"

record 'x board =
  piece_at :: "nat \<Rightarrow> piece option"
  turn :: color
  rest :: 'x

record 'x rules =
  legal_moves :: "'x board \<Rightarrow> move list"
  push :: "'x board \<Rightarrow> move \<Rightarrow> 'x board"
  pop :: "'x board \<Rightarrow> 'x board"
  is_check :: "'x board \<Rightarrow> bool"
  is_checkmate :: "'x board \<Rightarrow> bool"
  is_stalemate :: "'x board \<Rightarrow> bool"
  is_insufficient_material :: "'x board \<Rightarrow> bool"
  is_game_over :: "'x board \<Rightarrow> bool"
  is_capture :: "'x board \<Rightarrow> move \<Rightarrow> bool"
  from_uci :: "string \<Rightarrow> move option"
  uci :: "move \<Rightarrow> string"
  parse_fen :: "string \<Rightarrow> 'x board option"
  start_board :: "'x board"

text \<open>
  \<^verbatim>\<open>board.pieces(piece_type, color)\<close> is the set of squares holding that piece, and
  \<^verbatim>\<open>board.king(color)\<close> the highest such square for the king (none when there is no
  king). Squares are \<^verbatim>\<open>chess.SQUARES\<close>, the numbers 0 to 63, a1 = 0, h8 = 63, file
  \<open>square mod 8\<close> and rank \<open>square div 8\<close>.
\<close>

definition SQUARES :: "nat list" where
  "SQUARES = [0..<64]"

definition pieces :: "'x board \<Rightarrow> piece_type \<Rightarrow> color \<Rightarrow> nat list" where
  "pieces b pt c = filter (\<lambda>sq. piece_at b sq = Some (Piece pt c)) SQUARES"

definition king :: "'x board \<Rightarrow> color \<Rightarrow> nat option" where
  "king b c = (case pieces b KING c of [] \<Rightarrow> None | k # ks \<Rightarrow> Some (last (k # ks)))"

section \<open>Evaluation tables\<close>

fun PIECE_VALUES :: "piece_type \<Rightarrow> int" where
  "PIECE_VALUES PAWN = 100"
| "PIECE_VALUES KNIGHT = 320"
| "PIECE_VALUES BISHOP = 330"
| "PIECE_VALUES ROOK = 500"
| "PIECE_VALUES QUEEN = 900"
| "PIECE_VALUES KING = 20000"

definition PAWN_TABLE :: "int list" where
  "PAWN_TABLE = [
    0,  0,  0,  0,  0,  0,  0,  0,
    50, 50, 50, 50, 50, 50, 50, 50,
    10, 10, 20, 30, 30, 20, 10, 10,
    5,  5, 10, 25, 25, 10,  5,  5,
    0,  0,  0, 20, 20,  0,  0,  0,
    5, -5,-10,  0,  0,-10, -5,  5,
    5, 10, 10,-20,-20, 10, 10,  5,
    0,  0,  0,  0,  0,  0,  0,  0]"

definition KNIGHT_TABLE :: "int list" where
  "KNIGHT_TABLE = [
    -50,-40,-30,-30,-30,-30,-40,-50,
    -40,-20,  0,  0,  0,  0,-20,-40,
    -30,  0, 10, 15, 15, 10,  0,-30,
    -30,  5, 15, 20, 20, 15,  5,-30,
    -30,  0, 15, 20, 20, 15,  0,-30,
    -30,  5, 10, 15, 15, 10,  5,-30,
    -40,-20,  0,  5,  5,  0,-20,-40,
    -50,-40,-30,-30,-30,-30,-40,-50]"

definition BISHOP_TABLE :: "int list" where
  "BISHOP_TABLE = [
    -20,-10,-10,-10,-10,-10,-10,-20,
    -10,  0,  0,  0,  0,  0,  0,-10,
    -10,  0,  5, 10, 10,  5,  0,-10,
    -10,  5,  5, 10, 10,  5,  5,-10,
    -10,  0, 10, 10, 10, 10,  0,-10,
    -10, 10, 10, 10, 10, 10, 10,-10,
    -10,  5,  0,  0,  0,  0,  5,-10,
    -20,-10,-10,-10,-10,-10,-10,-20]"

definition ROOK_TABLE :: "int list" where
  "ROOK_TABLE = [
    0,  0,  0,  0,  0,  0,  0,  0,
    5, 10, 10, 10, 10, 10, 10,  5,
    -5,  0,  0,  0,  0,  0,  0, -5,
    -5,  0,  0,  0,  0,  0,  0, -5,
    -5,  0,  0,  0,  0,  0,  0, -5,
    -5,  0,  0,  0,  0,  0,  0, -5,
    -5,  0,  0,  0,  0,  0,  0, -5,
    0,  0,  0,  5,  5,  0,  0,  0]"

definition QUEEN_TABLE :: "int list" where
  "QUEEN_TABLE = [
    -20,-10,-10, -5, -5,-10,-10,-20,
    -10,  0,  0,  0,  0,  0,  0,-10,
    -10,  0,  5,  5,  5,  5,  0,-10,
    -5,  0,  5,  5,  5,  5,  0, -5,
    0,  0,  5,  5,  5,  5,  0, -5,
    -10,  5,  5,  5,  5,  5,  0,-10,
    -10,  0,  5,  0,  0,  0,  0,-10,
    -20,-10,-10, -5, -5,-10,-10,-20]"

definition KING_MIDDLE_TABLE :: "int list" where
  "KING_MIDDLE_TABLE = [
    -30,-40,-40,-50,-50,-40,-40,-30,
    -30,-40,-40,-50,-50,-40,-40,-30,
    -30,-40,-40,-50,-50,-40,-40,-30,
    -30,-40,-40,-50,-50,-40,-40,-30,
    -20,-30,-30,-40,-40,-30,-30,-20,
    -10,-20,-20,-20,-20,-20,-20,-10,
    20, 20,  0,  0,  0,  0, 20, 20,
    20, 30, 10,  0,  0, 10, 30, 20]"

definition KING_END_TABLE :: "int list" where
  "KING_END_TABLE = [
    -50,-40,-30,-20,-20,-30,-40,-50,
    -30,-20,-10,  0,  0,-10,-20,-30,
    -30,-10, 20, 30, 30, 20,-10,-30,
    -30,-10, 30, 40, 40, 30,-10,-30,
    -30,-10, 30, 40, 40, 30,-10,-30,
    -30,-10, 20, 30, 30, 20,-10,-30,
    -30,-30,  0,  0,  0,  0,-30,-30,
    -50,-30,-30,-30,-30,-30,-30,-50]"

section \<open>The evaluator\<close>

definition is_endgame :: "'x board \<Rightarrow> bool" where
  "is_endgame b =
     (let queens = length (pieces b QUEEN WHITE) + length (pieces b QUEEN BLACK);
          minor_pieces = length (pieces b KNIGHT WHITE) + length (pieces b BISHOP WHITE)
                       + length (pieces b KNIGHT BLACK) + length (pieces b BISHOP BLACK)
      in queens = 0 \<or> (queens = 2 \<and> minor_pieces \<le> 2))"

text \<open>
  The dictionary \<^verbatim>\<open>piece_tables\<close> of \<^verbatim>\<open>get_piece_square_value\<close> has no entry for the
  king; \<^verbatim>\<open>.get(piece_type, [0] * 64)\<close> supplies the zero table for a missing key.
\<close>

fun piece_tables :: "piece_type \<Rightarrow> int list option" where
  "piece_tables PAWN = Some PAWN_TABLE"
| "piece_tables KNIGHT = Some KNIGHT_TABLE"
| "piece_tables BISHOP = Some BISHOP_TABLE"
| "piece_tables ROOK = Some ROOK_TABLE"
| "piece_tables QUEEN = Some QUEEN_TABLE"
| "piece_tables KING = None"

text \<open>
  The caller passes squares of \<^verbatim>\<open>chess.SQUARES\<close> only, for which \<open>63 - square\<close> and
  \<open>square\<close> both index the 64 entries of a table.
\<close>

definition get_piece_square_value :: "'x board \<Rightarrow> piece \<Rightarrow> nat \<Rightarrow> int" where
  "get_piece_square_value b p square =
     (let table =
        (if piece_type p = KING
         then (if is_endgame b then KING_END_TABLE else KING_MIDDLE_TABLE)
         else (case piece_tables (piece_type p) of
                 Some t \<Rightarrow> t
               | None \<Rightarrow> replicate 64 0))
      in if color p = WHITE then table ! (63 - square) else table ! square)"

text \<open>
  \<^verbatim>\<open>evaluate_mobility\<close> assigns \<^verbatim>\<open>board.turn\<close> twice and then restores it; the model
  returns the board it leaves behind together with the score.
\<close>

definition evaluate_mobility :: "'x rules \<Rightarrow> 'x board \<Rightarrow> int \<times> 'x board" where
  "evaluate_mobility R b =
     (let current_turn = turn b;
          b1 = b\<lparr>turn := WHITE\<rparr>;
          white_mobility = int (length (legal_moves R b1));
          b2 = b1\<lparr>turn := BLACK\<rparr>;
          black_mobility = int (length (legal_moves R b2));
          b3 = b2\<lparr>turn := current_turn\<rparr>
      in ((white_mobility - black_mobility) * 5, b3))"

definition shield_bonus :: "'x board \<Rightarrow> color \<Rightarrow> nat \<Rightarrow> int" where
  "shield_bonus b c king_square =
     (let king_file = int (king_square mod 8);
          king_rank = int (king_square div 8);
          pawn_direction = (if c = WHITE then 1 else -1)
      in fold (\<lambda>file_offset bonus.
           let check_file = king_file + file_offset;
               check_rank = king_rank + pawn_direction
           in if 0 \<le> check_file \<and> check_file \<le> 7 \<and> 0 \<le> check_rank \<and> check_rank \<le> 7
              then (case piece_at b (nat (check_rank * 8 + check_file)) of
                      Some p \<Rightarrow>
                        if piece_type p = PAWN \<and> color p = c then bonus + 10 else bonus
                    | None \<Rightarrow> bonus)
              else bonus)
         [-1, 0, 1] 0)"

definition evaluate_king_safety :: "'x board \<Rightarrow> int" where
  "evaluate_king_safety b =
     fold (\<lambda>c score.
        case king b c of
          None \<Rightarrow> score
        | Some king_square \<Rightarrow>
            if c = WHITE then score + shield_bonus b c king_square
            else score - shield_bonus b c king_square)
       [WHITE, BLACK] 0"

definition material :: "'x board \<Rightarrow> int" where
  "material b =
     fold (\<lambda>square score.
        case piece_at b square of
          None \<Rightarrow> score
        | Some p \<Rightarrow>
            let v = PIECE_VALUES (piece_type p) + get_piece_square_value b p square
            in if color p = WHITE then score + v else score - v)
       SQUARES 0"

text \<open>
  \<^verbatim>\<open>evaluate\<close>: the score, positive for White, and the board as the call leaves it.
  \<open>material\<close> is the loop over the squares at the head of the general case.
\<close>

definition evaluate :: "'x rules \<Rightarrow> 'x board \<Rightarrow> int \<times> 'x board" where
  "evaluate R b =
     (if is_checkmate R b then ((if turn b = WHITE then -30000 else 30000), b)
      else if is_stalemate R b \<or> is_insufficient_material R b then (0, b)
      else
        let score = material b;
            (mobility, b') = evaluate_mobility R b;
            score = score + mobility;
            score = (if \<not> is_endgame b' then score + evaluate_king_safety b' else score);
            score = (if is_check R b' then score + (if turn b' = WHITE then -30 else 30)
                     else score)
        in (score, b'))"

section \<open>Scores with infinite bounds\<close>

text \<open>
  The bounds \<^verbatim>\<open>alpha\<close> and \<^verbatim>\<open>beta\<close> are Python floats that start at
  \<^verbatim>\<open>-float('inf')\<close> and \<^verbatim>\<open>float('inf')\<close>; scores are integers. The search only
  compares and negates them, which Python does exactly, so a bound is a real number or
  one of the two infinities.
\<close>

datatype bound = MInf | Fin real | PInf

instantiation bound :: "{uminus, linorder}"
begin

fun uminus_bound :: "bound \<Rightarrow> bound" where
  "uminus_bound MInf = PInf"
| "uminus_bound (Fin r) = Fin (- r)"
| "uminus_bound PInf = MInf"

fun less_eq_bound :: "bound \<Rightarrow> bound \<Rightarrow> bool" where
  "less_eq_bound MInf y = True"
| "less_eq_bound (Fin r) MInf = False"
| "less_eq_bound (Fin r) (Fin q) = (r \<le> q)"
| "less_eq_bound (Fin r) PInf = True"
| "less_eq_bound PInf MInf = False"
| "less_eq_bound PInf (Fin q) = False"
| "less_eq_bound PInf PInf = True"

definition less_bound :: "bound \<Rightarrow> bound \<Rightarrow> bool" where
  "less_bound x y = (x \<le> y \<and> \<not> y \<le> (x::bound))"

instance
proof
  fix x y z :: bound
  show "(x < y) = (x \<le> y \<and> \<not> y \<le> x)"
    by (simp add: less_bound_def)
  show "x \<le> x"
    by (cases x) simp_all
  show "x \<le> y \<Longrightarrow> y \<le> z \<Longrightarrow> x \<le> z"
    by (cases x; cases y; cases z) simp_all
  show "x \<le> y \<Longrightarrow> y \<le> x \<Longrightarrow> x = y"
    by (cases x; cases y) simp_all
  show "x \<le> y \<or> y \<le> x"
    by (cases x; cases y) auto
qed

end

definition score_of :: "int \<Rightarrow> bound" where
  "score_of v = Fin (real_of_int v)"

section \<open>Move ordering\<close>

text \<open>
  \<^verbatim>\<open>center_bonus = (3.5 - abs(to_file - 3.5)) + (3.5 - abs(to_rank - 3.5))\<close> is computed
  in floating point on halves, which is exact; \<open>3.5 - |f - 3.5| = (7 - |2 f - 7|) / 2\<close>
  is a whole number for every whole \<open>f\<close>, so \<^verbatim>\<open>int(center_bonus * 5)\<close> is five times
  the sum below.
\<close>

definition center_bonus :: "nat \<Rightarrow> int" where
  "center_bonus square =
     (let to_file = int (square mod 8);
          to_rank = int (square div 8)
      in (7 - \<bar>2 * to_file - 7\<bar>) div 2 + (7 - \<bar>2 * to_rank - 7\<bar>) div 2)"

definition move_score :: "'x rules \<Rightarrow> 'x board \<Rightarrow> move \<Rightarrow> int" where
  "move_score R b m =
     (let score = 0;
          score =
            (if is_capture R b m
             then (case (piece_at b (to_square m), piece_at b (from_square m)) of
                     (Some captured, Some attacker) \<Rightarrow>
                       score + (10 * PIECE_VALUES (piece_type captured)
                                - PIECE_VALUES (piece_type attacker))
                   | _ \<Rightarrow> score)
             else score);
          score = (case promotion m of Some pt \<Rightarrow> score + PIECE_VALUES pt | None \<Rightarrow> score);
          score = (if is_check R (push R b m) then score + 50 else score)
      in score + center_bonus (to_square m) * 5)"

text \<open>
  \<^verbatim>\<open>scored_moves.sort(key=lambda x: x[0], reverse=True)\<close> is a stable sort by falling
  score; \<open>sort_key\<close> is a stable sort by rising key.
\<close>

definition order_moves :: "'x rules \<Rightarrow> 'x board \<Rightarrow> move list \<Rightarrow> move list" where
  "order_moves R b moves =
     map snd (sort_key (\<lambda>(score, m). - score) (map (\<lambda>m. (move_score R b m, m)) moves))"

section \<open>Quiescence search\<close>

text \<open>
  A search pushes a move, recurses and pops: the model hands the pushed board to the
  recursive call and goes on with the board it had, which is what \<^verbatim>\<open>pop\<close> restores. The
  node counter \<^verbatim>\<open>self.nodes_searched\<close> is threaded through the calls. The loop over the
  moves is a function of its own that takes the recursive call as an argument.
\<close>

fun quiescence_loop ::
  "(move \<Rightarrow> bound \<Rightarrow> bound \<Rightarrow> nat \<Rightarrow> bound \<times> nat) \<Rightarrow> move list \<Rightarrow> bound \<Rightarrow> bound \<Rightarrow> nat
     \<Rightarrow> bound \<times> nat" where
  "quiescence_loop rec [] alpha beta n = (alpha, n)"
| "quiescence_loop rec (m # ms) alpha beta n =
     (let (r, n') = rec m (- beta) (- alpha) n;
          score = - r
      in if score \<ge> beta then (beta, n')
         else quiescence_loop rec ms (if score > alpha then score else alpha) beta n')"

definition stand_pat_of :: "'x rules \<Rightarrow> 'x board \<Rightarrow> bound" where
  "stand_pat_of R b =
     (let stand_pat = score_of (fst (evaluate R b))
      in if turn b = BLACK then - stand_pat else stand_pat)"

function quiescence ::
  "'x rules \<Rightarrow> 'x board \<Rightarrow> bound \<Rightarrow> bound \<Rightarrow> nat \<Rightarrow> nat \<Rightarrow> bound \<times> nat" where
  "quiescence R b alpha beta depth n =
     (let stand_pat = stand_pat_of R b
      in if stand_pat \<ge> beta then (beta, n + 1)
         else
           let alpha = (if alpha < stand_pat then stand_pat else alpha)
           in if depth > 4 then (alpha, n + 1)
              else quiescence_loop
                     (\<lambda>m a c k. quiescence R (push R b m) a c (depth + 1) k)
                     (filter (is_capture R b) (legal_moves R b))
                     alpha beta (n + 1))"
  by pat_completeness auto
termination
  by (relation "measure (\<lambda>(R, b, alpha, beta, depth, n). 5 - depth)") auto

declare quiescence.simps [simp del]

section \<open>Minimax with alpha-beta pruning\<close>

text \<open>
  The wall clock is outside the program. Whether the deadline test
  \<^verbatim>\<open>time.time() - self.start_time > self.max_time\<close> succeeds at a node is read from the
  oracle \<open>expired\<close>, asked at the value the node counter has at that test; the counter
  grows with every node, so the oracle may answer each test of one search as it likes.
  \<^verbatim>\<open>depth\<close> is a natural number: the caller clamps it into 1 to 5.
\<close>

fun max_loop ::
  "(move \<Rightarrow> bound \<Rightarrow> bound \<Rightarrow> nat \<Rightarrow> bound \<times> nat) \<Rightarrow> move list \<Rightarrow> bound \<Rightarrow> bound \<Rightarrow> bound
     \<Rightarrow> move option \<Rightarrow> nat \<Rightarrow> bound \<times> move option \<times> nat" where
  "max_loop rec [] alpha beta max_eval best_move n = (max_eval, best_move, n)"
| "max_loop rec (m # ms) alpha beta max_eval best_move n =
     (let (eval_score, n') = rec m alpha beta n;
          (max_eval, best_move) =
            (if eval_score > max_eval then (eval_score, Some m) else (max_eval, best_move));
          alpha = max alpha eval_score
      in if beta \<le> alpha then (max_eval, best_move, n')
         else max_loop rec ms alpha beta max_eval best_move n')"

fun min_loop ::
  "(move \<Rightarrow> bound \<Rightarrow> bound \<Rightarrow> nat \<Rightarrow> bound \<times> nat) \<Rightarrow> move list \<Rightarrow> bound \<Rightarrow> bound \<Rightarrow> bound
     \<Rightarrow> move option \<Rightarrow> nat \<Rightarrow> bound \<times> move option \<times> nat" where
  "min_loop rec [] alpha beta min_eval best_move n = (min_eval, best_move, n)"
| "min_loop rec (m # ms) alpha beta min_eval best_move n =
     (let (eval_score, n') = rec m alpha beta n;
          (min_eval, best_move) =
            (if eval_score < min_eval then (eval_score, Some m) else (min_eval, best_move));
          beta = min beta eval_score
      in if beta \<le> alpha then (min_eval, best_move, n')
         else min_loop rec ms alpha beta min_eval best_move n')"

function minimax ::
  "'x rules \<Rightarrow> (nat \<Rightarrow> bool) \<Rightarrow> 'x board \<Rightarrow> nat \<Rightarrow> bound \<Rightarrow> bound \<Rightarrow> bool \<Rightarrow> nat
     \<Rightarrow> bound \<times> move option \<times> nat" where
  "minimax R expired b depth alpha beta maximizing n =
     (if expired (n + 1)
      then (let eval_score = score_of (fst (evaluate R b))
            in ((if maximizing then eval_score else - eval_score), None, n + 1))
      else if depth = 0 \<or> is_game_over R b
      then (let (score, n') = quiescence R b alpha beta 0 (n + 1)
            in ((if turn b = WHITE then score else - score), None, n'))
      else
        let moves = order_moves R b (legal_moves R b)
        in if maximizing
           then max_loop
                  (\<lambda>m a c k. case minimax R expired (push R b m) (depth - 1) a c False k of
                                (eval_score, _, k') \<Rightarrow> (eval_score, k'))
                  moves alpha beta MInf None (n + 1)
           else min_loop
                  (\<lambda>m a c k. case minimax R expired (push R b m) (depth - 1) a c True k of
                                (eval_score, _, k') \<Rightarrow> (eval_score, k'))
                  moves alpha beta PInf None (n + 1))"
  by pat_completeness auto
termination
  by (relation "measure (\<lambda>(R, expired, b, depth, alpha, beta, maximizing, n). depth)") auto

declare minimax.simps [simp del]

section \<open>Opening books\<close>

definition ENGLISH_OPENING :: "(string \<times> string list) list" where
  "ENGLISH_OPENING = [
    ([], [''c2c4'']),
    (''e7e5'', [''b1c3'', ''g2g3'']),
    (''e7e5 b1c3'', [''g8f6'', ''b8c6'']),
    (''e7e5 g2g3'', [''g8f6'', ''b8c6'']),
    (''c7c5'', [''b1c3'', ''g2g3'']),
    (''c7c5 b1c3'', [''b8c6'', ''g8f6'']),
    (''g8f6'', [''b1c3'', ''g2g3'']),
    (''g8f6 b1c3'', [''e7e5'', ''d7d5'']),
    (''d7d5'', [''c4d5'', ''b1c3'']),
    (''e7e6'', [''b1c3'', ''g2g3'', ''g1f3''])]"

definition ENGLISH_THEMATIC_MOVES :: "string list" where
  "ENGLISH_THEMATIC_MOVES =
     [''b1c3'', ''g2g3'', ''f1g2'', ''g1f3'', ''e1g1'', ''d2d3'', ''e2e4'', ''b2b3'']"

definition MODERN_DEFENSE :: "(string \<times> string list) list" where
  "MODERN_DEFENSE = [
    (''e2e4'', [''g7g6'']),
    (''e2e4 g7g6'', [''d7d6'', ''f8g7'']),
    (''e2e4 g7g6 d2d4'', [''f8g7'']),
    (''e2e4 g7g6 d2d4 f8g7'', [''b8c6'', ''d7d6'']),
    (''e2e4 g7g6 g1f3'', [''f8g7'']),
    (''e2e4 g7g6 g1f3 f8g7'', [''d7d6'', ''c7c5'']),
    (''e2e4 g7g6 b1c3'', [''f8g7'']),
    (''e2e4 g7g6 b1c3 f8g7'', [''d7d6'', ''c7c5'']),
    (''d2d4'', [''g7g6'']),
    (''d2d4 g7g6'', [''f8g7'']),
    (''d2d4 g7g6 e2e4'', [''f8g7'']),
    (''d2d4 g7g6 c2c4'', [''f8g7'']),
    (''g1f3'', [''g7g6'']),
    (''c2c4'', [''g7g6''])]"

definition MODERN_THEMATIC_MOVES :: "string list" where
  "MODERN_THEMATIC_MOVES =
     [''g7g6'', ''f8g7'', ''d7d6'', ''b8d7'', ''e7e5'', ''c7c6'', ''a7a6'', ''b7b5'']"

section \<open>The engine session\<close>

record 'x engine =
  board :: "'x board"
  move_history :: "move list"
  redo_stack :: "move list"
  ai_color :: "color option"
  max_time :: real
  start_time :: real
  nodes_searched :: nat
  safety_threshold :: int

text \<open>
  What the engine takes from outside while it picks a move: the clock reading at the start
  of the search, the answers to the deadline tests, and the outcome of each random
  draw. \<^verbatim>\<open>random.choice(xs)\<close> with draw \<open>k\<close> is \<open>xs ! (k mod length xs)\<close>, so every
  element can be drawn, and it raises \<^verbatim>\<open>IndexError\<close> on the empty list;
  \<^verbatim>\<open>random.random()\<close> is the number \<open>roll\<close>.
\<close>

record outside =
  now :: real
  expired :: "nat \<Rightarrow> bool"
  book_pick :: nat
  roll :: real
  thematic_pick :: nat
  fallback_pick :: nat

datatype error = IndexError | ValueError

definition choice :: "nat \<Rightarrow> 'a list \<Rightarrow> error + 'a" where
  "choice k xs = (if xs = [] then Inl IndexError else Inr (xs ! (k mod length xs)))"

definition init_engine :: "'x rules \<Rightarrow> 'x engine" where
  "init_engine R =
     \<lparr>board = start_board R, move_history = [], redo_stack = [], ai_color = None,
      max_time = 5, start_time = 0, nodes_searched = 0, safety_threshold = -200\<rparr>"




fun join_space :: "string list \<Rightarrow> string" where
  "join_space [] = []"
| "join_space [x] = x"
| "join_space (x # y # ys) = x @ '' '' @ join_space (y # ys)"

definition get_move_history_uci :: "'x rules \<Rightarrow> 'x engine \<Rightarrow> string list" where
  "get_move_history_uci R s = map (uci R) (move_history s)"

definition perspective :: "color option \<Rightarrow> int" where
  "perspective c = (if c = Some WHITE then 1 else -1)"

definition get_thematic_move ::
  "'x rules \<Rightarrow> outside \<Rightarrow> 'x engine \<Rightarrow> string list \<Rightarrow> error + string option" where
  "get_thematic_move R out s thematic_moves =
     (let thematic_legal =
            map (uci R)
              (filter (\<lambda>m. uci R m \<in> set thematic_moves \<and>
                           fst (evaluate R (push R (board s) m)) * perspective (ai_color s)
                             \<ge> safety_threshold s)
                 (legal_moves R (board s)))
      in if thematic_legal \<noteq> [] \<and> roll out < 7 / 10
         then map_sum id Some (choice (thematic_pick out) thematic_legal)
         else Inr None)"

definition get_opening_move :: "'x rules \<Rightarrow> outside \<Rightarrow> 'x engine \<Rightarrow> error + string option" where
  "get_opening_move R out s =
     (let move_sequence = join_space (get_move_history_uci R s);
          move_count = length (move_history s)
      in if ai_color s = Some WHITE
         then (case map_of ENGLISH_OPENING move_sequence of
                 Some moves \<Rightarrow> map_sum id Some (choice (book_pick out) moves)
               | None \<Rightarrow>
                   if move_count < 12 then get_thematic_move R out s ENGLISH_THEMATIC_MOVES
                   else Inr None)
         else if ai_color s = Some BLACK
         then (case map_of MODERN_DEFENSE move_sequence of
                 Some moves \<Rightarrow> map_sum id Some (choice (book_pick out) moves)
               | None \<Rightarrow>
                   if move_count < 12 then get_thematic_move R out s MODERN_THEMATIC_MOVES
                   else Inr None)
         else Inr None)"

section \<open>Selecting a move\<close>

text \<open>
  \<^verbatim>\<open>if opening_move:\<close> followed by the legality test under \<^verbatim>\<open>try\<close>: the opening move is
  taken when it is a non-empty code that parses to a move of the legal-move list.
\<close>

definition opening_accepted :: "'x rules \<Rightarrow> 'x board \<Rightarrow> string option \<Rightarrow> bool" where
  "opening_accepted R b opening_move =
     (case opening_move of
        None \<Rightarrow> False
      | Some code \<Rightarrow>
          code \<noteq> [] \<and>
          (case from_uci R code of
             None \<Rightarrow> False
           | Some m \<Rightarrow> m \<in> set (legal_moves R b)))"

definition safety_net :: "'x rules \<Rightarrow> 'x engine \<Rightarrow> move \<Rightarrow> move" where
  "safety_net R s best_move =
     (let persp = perspective (ai_color s);
          post_eval = fst (evaluate R (push R (board s) best_move));
          ai_eval = post_eval * persp
      in if ai_eval < safety_threshold s
         then (let safe_moves =
                     filter (\<lambda>(eval_after, m). eval_after \<ge> safety_threshold s)
                       (map (\<lambda>m. (fst (evaluate R (push R (board s) m)) * persp, m))
                          (legal_moves R (board s)))
               in case sort_key (\<lambda>(eval_after, m). - eval_after) safe_moves of
                    [] \<Rightarrow> best_move
                  | (eval_after, m) # _ \<Rightarrow> m)
         else best_move)"

definition fallback_move ::
  "'x rules \<Rightarrow> outside \<Rightarrow> 'x board \<Rightarrow> move option \<Rightarrow> error + move option" where
  "fallback_move R out b best_move =
     (case best_move of
        Some m \<Rightarrow> Inr (Some m)
      | None \<Rightarrow>
          if legal_moves R b \<noteq> []
          then map_sum id Some (choice (fallback_pick out) (legal_moves R b))
          else Inr None)"

definition get_best_move ::
  "'x rules \<Rightarrow> outside \<Rightarrow> 'x engine \<Rightarrow> int \<Rightarrow> (error + string option) \<times> 'x engine" where
  "get_best_move R out s depth =
     (if is_game_over R (board s) then (Inr None, s)
      else
        case get_opening_move R out s of
          Inl e \<Rightarrow> (Inl e, s)
        | Inr opening_move \<Rightarrow>
            if opening_accepted R (board s) opening_move then (Inr opening_move, s)
            else
              let depth = max 1 (min 5 depth);
                  is_maximizing = (turn (board s) = WHITE);
                  (score, best_move, n) =
                    minimax R (expired out) (board s) (nat depth) MInf PInf is_maximizing 0;
                  s = s\<lparr>start_time := now out, nodes_searched := n\<rparr>
              in (case fallback_move R out (board s) best_move of
                    Inl e \<Rightarrow> (Inl e, s)
                  | Inr None \<Rightarrow> (Inr None, s)
                  | Inr (Some m) \<Rightarrow>
                      (let m = (if move_bool m \<and> ai_color s \<noteq> None
                                then safety_net R s m else m)
                       in ((if move_bool m then Inr (Some (uci R m)) else Inr None), s))))"

text \<open>
  \<^verbatim>\<open>get_best_move_for_fen\<close>: the body runs under \<^verbatim>\<open>try\<close>, and the \<^verbatim>\<open>finally\<close> block
  assigns the three saved fields whether the body returned or raised.
\<close>

definition is_valid_fen :: "'x rules \<Rightarrow> string \<Rightarrow> bool" where
  "is_valid_fen R fen = (parse_fen R fen \<noteq> None)"

definition get_best_move_for_fen ::
  "'x rules \<Rightarrow> outside \<Rightarrow> 'x engine \<Rightarrow> string \<Rightarrow> int \<Rightarrow> (error + string option) \<times> 'x engine" where
  "get_best_move_for_fen R out s fen depth =
     (if \<not> is_valid_fen R fen then (Inr None, s)
      else
        let original_board = board s;
            original_history = move_history s;
            original_redo = redo_stack s;
            (result, s') =
              (case parse_fen R fen of
                 None \<Rightarrow> (Inl ValueError, s)
               | Some scratch \<Rightarrow> get_best_move R out (s\<lparr>board := scratch\<rparr>) depth)
        in (result, s'\<lparr>board := original_board,
                       move_history := original_history,
                       redo_stack := original_redo\<rparr>))"


text \<open>\<^verbatim>\<open>evaluate\<close> as a method of the session: it reads and writes \<^verbatim>\<open>self.board\<close>.\<close>

definition evaluate_session :: "'x rules \<Rightarrow> 'x engine \<Rightarrow> int \<times> 'x engine" where
  "evaluate_session R s = (case evaluate R (board s) of (v, b') \<Rightarrow> (v, s\<lparr>board := b'\<rparr>))"

section \<open>A scripted collaborator\<close>

text \<open>
  A rules record whose answers are written on the position itself: the component
  \<open>rest\<close> of a board is a script that lists, for each side, the legal moves it has (in
  the order the library generates them) and the script each leads to, and says whether
  the position is check, mate and so on. Every finite game tree is a script. It stands in
  for the library wherever a statement about all rules is applied to one position.
\<close>

datatype script =
  Script (in_check: bool) (mate: bool) (stale: bool) (insufficient: bool)
    (white_moves: "(move \<times> script) list") (black_moves: "(move \<times> script) list")
    (capture_moves: "move list")

definition side_moves :: "script board \<Rightarrow> (move \<times> script) list" where
  "side_moves b = (if turn b = WHITE then white_moves (rest b) else black_moves (rest b))"

definition other :: "color \<Rightarrow> color" where
  "other c = (if c = WHITE then BLACK else WHITE)"

definition FILE_NAMES :: string where
  "FILE_NAMES = ''abcdefgh''"

definition RANK_NAMES :: string where
  "RANK_NAMES = ''12345678''"

fun list_index :: "'a list \<Rightarrow> 'a \<Rightarrow> nat option" where
  "list_index [] y = None"
| "list_index (x # xs) y = (if x = y then Some 0 else map_option Suc (list_index xs y))"

definition square_name :: "nat \<Rightarrow> string" where
  "square_name sq = [FILE_NAMES ! (sq mod 8), RANK_NAMES ! (sq div 8)]"

definition parse_square :: "char \<Rightarrow> char \<Rightarrow> nat option" where
  "parse_square f r =
     (case (list_index FILE_NAMES f, list_index RANK_NAMES r) of
        (Some i, Some j) \<Rightarrow> Some (j * 8 + i)
      | _ \<Rightarrow> None)"

definition plain_move :: "nat \<Rightarrow> nat \<Rightarrow> move" where
  "plain_move f t = \<lparr>from_square = f, to_square = t, promotion = None, drop_piece = None\<rparr>"

text \<open>The four-character codes of moves without promotion, as the library writes them.\<close>

definition script_uci :: "move \<Rightarrow> string" where
  "script_uci m = square_name (from_square m) @ square_name (to_square m)"

definition script_from_uci :: "string \<Rightarrow> move option" where
  "script_from_uci code =
     (case code of
        [a, b, c, d] \<Rightarrow>
          (case (parse_square a b, parse_square c d) of
             (Some f, Some t) \<Rightarrow> if f = t then None else Some (plain_move f t)
           | _ \<Rightarrow> None)
      | _ \<Rightarrow> None)"

text \<open>
  Applying a move carries the piece on the origin square (or the promotion piece) to the
  destination square, where it replaces what stood there.
\<close>

definition carry :: "'x board \<Rightarrow> move \<Rightarrow> 'x board" where
  "carry b m =
     b\<lparr>piece_at :=
         (piece_at b)
           (from_square m := None,
            to_square m :=
              (case promotion m of
                 None \<Rightarrow> piece_at b (from_square m)
               | Some pt \<Rightarrow> Some (Piece pt (turn b))))\<rparr>"

definition scripted :: "(string \<times> script board) list \<Rightarrow> script board \<Rightarrow> script rules" where
  "scripted fens start =
     \<lparr>legal_moves = (\<lambda>b. map fst (side_moves b)),
      push = (\<lambda>b m. case map_of (side_moves b) m of
                       Some next \<Rightarrow> (carry b m)\<lparr>turn := other (turn b), rest := next\<rparr>
                     | None \<Rightarrow> (carry b m)\<lparr>turn := other (turn b)\<rparr>),
      pop = (\<lambda>b. b),
      is_check = (\<lambda>b. in_check (rest b)),
      is_checkmate = (\<lambda>b. mate (rest b)),
      is_stalemate = (\<lambda>b. stale (rest b)),
      is_insufficient_material = (\<lambda>b. insufficient (rest b)),
      is_game_over = (\<lambda>b. mate (rest b) \<or> stale (rest b) \<or> insufficient (rest b)),
      is_capture = (\<lambda>b m. m \<in> set (capture_moves (rest b))),
      from_uci = script_from_uci,
      uci = script_uci,
      parse_fen = map_of fens,
      start_board = start\<rparr>"

definition quiet :: script where
  "quiet = Script False False False False [] [] []"

definition moves_to :: "nat \<Rightarrow> nat list \<Rightarrow> (move \<times> script) list" where
  "moves_to f ts = map (\<lambda>t. (plain_move f t, quiet)) ts"

definition place :: "(nat \<times> piece) list \<Rightarrow> color \<Rightarrow> 'x \<Rightarrow> 'x board" where
  "place ps c x = \<lparr>piece_at = map_of ps, turn = c, rest = x\<rparr>"

subsection \<open>A pawn ending\<close>

text \<open>
  The position \<^verbatim>\<open>k7/p1K5/P2p3p/3P4/7P/8/8/8 b - - 0 1\<close>: White Kc7, pawns a6, d5, h4;
  Black Ka8, pawns a7, d6, h6; Black to move. Black has the single legal move h6-h5
  (b7 and b8 are covered, the other pawns are blocked). White then has five king moves,
  which the library generates from the highest destination square down: Kd8, Kc8
  (stalemate), Kd7, Kxd6, Kc6. After each of them but Kc8 Black has the single move
  Kb8, which captures nothing. The scripts list these moves and, for the mobility count,
  the moves White would have in each of the five positions.
\<close>

definition after_Kd8 :: script where
  "after_Kd8 = Script False False False False
     (moves_to 59 [60, 58, 52, 51, 50]) (moves_to 56 [57]) []"

definition after_Kc8 :: script where
  "after_Kc8 = Script False False True False
     (moves_to 58 [59, 51, 50]) [] []"

definition after_Kd7 :: script where
  "after_Kd7 = Script False False False False
     (moves_to 51 [60, 59, 58, 52, 50, 44, 43, 42]) (moves_to 56 [57]) []"

definition after_Kxd6 :: script where
  "after_Kxd6 = Script False False False False
     (moves_to 43 [52, 51, 50, 44, 42, 36, 34]) (moves_to 56 [57]) []"

definition after_Kc6 :: script where
  "after_Kc6 = Script False False False False
     (moves_to 42 [51, 50, 43, 33]) (moves_to 56 [57]) []"

definition after_h5 :: script where
  "after_h5 = Script False False False False
     [(plain_move 50 59, after_Kd8), (plain_move 50 58, after_Kc8),
      (plain_move 50 51, after_Kd7), (plain_move 50 43, after_Kxd6),
      (plain_move 50 42, after_Kc6)]
     []
     [plain_move 50 43]"

definition pawn_ending_script :: script where
  "pawn_ending_script = Script False False False False
     (moves_to 50 [59, 58, 51, 43, 42] @ moves_to 31 [39])
     [(plain_move 47 39, after_h5)]
     [plain_move 50 43]"

definition pawn_ending :: "script board" where
  "pawn_ending =
     place [(50, Piece KING WHITE), (40, Piece PAWN WHITE), (35, Piece PAWN WHITE),
            (31, Piece PAWN WHITE), (56, Piece KING BLACK), (48, Piece PAWN BLACK),
            (43, Piece PAWN BLACK), (47, Piece PAWN BLACK)]
       BLACK pawn_ending_script"

definition pawn_ending_fen :: string where
  "pawn_ending_fen = ''k7/p1K5/P2p3p/3P4/7P/8/8/8 b - - 0 1''"

definition pawn_ending_rules :: "script rules" where
  "pawn_ending_rules = scripted [(pawn_ending_fen, pawn_ending)] pawn_ending"

definition never :: "nat \<Rightarrow> bool" where
  "never n = False"

definition calm :: outside where
  "calm = \<lparr>now = 0, expired = never, book_pick = 0, roll = 0, thematic_pick = 0,
            fallback_pick = 0\<rparr>"

subsection \<open>A queen on the rim, and its mirror image\<close>

text \<open>
  \<^verbatim>\<open>4k3/8/8/8/7Q/8/8/4K3 w - - 0 1\<close> (White Ke1, Qh4; Black Ke8) and the position with
  colours swapped and the board flipped top to bottom,
  \<^verbatim>\<open>4k3/8/8/7q/8/8/8/4K3 b - - 0 1\<close> (Black Ke8, Qh5; White Ke1). In the first White
  has 25 legal moves and Black would have 3; in the second it is the other way round.
\<close>

definition queen_h4_script :: script where
  "queen_h4_script = Script False False False False
     (moves_to 31 [63, 59, 55, 52, 47, 45, 39, 38, 30, 29, 28, 27, 26, 25, 24, 23, 22, 15,
                   13, 7]
      @ moves_to 4 [13, 12, 11, 5, 3])
     (moves_to 60 [61, 53, 51])
     []"

definition queen_h4 :: "script board" where
  "queen_h4 =
     place [(4, Piece KING WHITE), (31, Piece QUEEN WHITE), (60, Piece KING BLACK)]
       WHITE queen_h4_script"

definition queen_h5_script :: script where
  "queen_h5_script = Script False False False False
     (moves_to 4 [13, 11, 5])
     (moves_to 60 [61, 59, 53, 52, 51]
      @ moves_to 39 [63, 55, 53, 47, 46, 38, 37, 36, 35, 34, 33, 32, 31, 30, 23, 21, 15,
                     12, 7, 3])
     []"

definition queen_h5 :: "script board" where
  "queen_h5 =
     place [(60, Piece KING BLACK), (39, Piece QUEEN BLACK), (4, Piece KING WHITE)]
       BLACK queen_h5_script"

definition bare_rules :: "script rules" where
  "bare_rules = scripted [] queen_h4"

subsection \<open>Positions for the terminal cases and the endgame test\<close>

definition mated :: "color \<Rightarrow> script board" where
  "mated c = place [] c (Script True True False False [] [] [])"

definition stalemated :: "script board" where
  "stalemated = place [] WHITE (Script False False True False [] [] [])"

definition bare_kings :: "script board" where
  "bare_kings =
     place [(4, Piece KING WHITE), (60, Piece KING BLACK)] BLACK
       (Script False False False True (moves_to 4 [12]) (moves_to 60 [52]) [])"

definition lone_queen :: "unit board" where
  "lone_queen =
     place [(4, Piece KING WHITE), (3, Piece QUEEN WHITE), (60, Piece KING BLACK)] WHITE ()"

definition two_queens :: "unit board" where
  "two_queens =
     place [(4, Piece KING WHITE), (3, Piece QUEEN WHITE), (60, Piece KING BLACK),
            (59, Piece QUEEN BLACK)] WHITE ()"

section \<open>The statements of the specification, in its own words\<close>

text \<open>
  The endgame test as the specification words it: all queens are off the board, or
  queens are present and each side has at most two minor pieces.
\<close>

definition queen_count :: "'x board \<Rightarrow> nat" where
  "queen_count b = card {sq. sq < 64 \<and> (\<exists>c. piece_at b sq = Some (Piece QUEEN c))}"

definition minor_count :: "'x board \<Rightarrow> color \<Rightarrow> nat" where
  "minor_count b c =
     card {sq. sq < 64 \<and>
               (piece_at b sq = Some (Piece KNIGHT c) \<or> piece_at b sq = Some (Piece BISHOP c))}"

definition endgame_as_specified :: "'x board \<Rightarrow> bool" where
  "endgame_as_specified b =
     (queen_count b = 0 \<or>
      (queen_count b > 0 \<and> minor_count b WHITE \<le> 2 \<and> minor_count b BLACK \<le> 2))"

text \<open>
  Minimax without pruning: the value of a leaf is the quiescence value over the full
  window, seen from White; an inner node takes the largest or smallest value of its
  children, starting from the infinity the search starts from.
\<close>

definition leaf_value :: "'x rules \<Rightarrow> 'x board \<Rightarrow> bound" where
  "leaf_value R b =
     (let score = fst (quiescence R b MInf PInf 0 0)
      in if turn b = WHITE then score else - score)"

fun full_minimax :: "'x rules \<Rightarrow> 'x board \<Rightarrow> nat \<Rightarrow> bool \<Rightarrow> bound" where
  "full_minimax R b 0 maximizing = leaf_value R b"
| "full_minimax R b (Suc d) maximizing =
     (if is_game_over R b then leaf_value R b
      else if maximizing
      then fold max (map (\<lambda>m. full_minimax R (push R b m) d False) (legal_moves R b)) MInf
      else fold min (map (\<lambda>m. full_minimax R (push R b m) d True) (legal_moves R b)) PInf)"

text \<open>
  The mirror image of a position: the board flipped top to bottom
  (\<^verbatim>\<open>chess.square_mirror\<close>, which keeps the file of a square and reverses its rank), the
  colours of the pieces and the side to move swapped. The rules give both positions the
  same verdicts, and each side of the one has as many legal moves as the other side of the
  other.
\<close>

definition square_mirror :: "nat \<Rightarrow> nat" where
  "square_mirror sq = 8 * (7 - sq div 8) + sq mod 8"

definition swap_color :: "piece \<Rightarrow> piece" where
  "swap_color p = Piece (piece_type p) (other (color p))"

definition mirror_image :: "'x rules \<Rightarrow> 'x board \<Rightarrow> 'x board \<Rightarrow> bool" where
  "mirror_image R b b' =
     (list_all (\<lambda>sq. piece_at b' sq = map_option swap_color (piece_at b (square_mirror sq)))
        SQUARES \<and>
      turn b' = other (turn b) \<and>
      is_checkmate R b' = is_checkmate R b \<and>
      is_stalemate R b' = is_stalemate R b \<and>
      is_insufficient_material R b' = is_insufficient_material R b \<and>
      is_check R b' = is_check R b \<and>
      length (legal_moves R (b'\<lparr>turn := WHITE\<rparr>)) = length (legal_moves R (b\<lparr>turn := BLACK\<rparr>)) \<and>
      length (legal_moves R (b'\<lparr>turn := BLACK\<rparr>)) = length (legal_moves R (b\<lparr>turn := WHITE\<rparr>)))"

text \<open>
  Notions for comparing a position with its mirror image: the signed value of the piece
  on a square, as the loop of \<^verbatim>\<open>evaluate\<close> adds it; what a table gives a piece more than
  it gives the mirrored piece on the mirrored square; the sum of these differences over the
  queens of a position; a table that reads the same from the left and from the right; and
  one step of the pawn-shield loop.
\<close>

definition table_skew :: "int list \<Rightarrow> color \<Rightarrow> nat \<Rightarrow> int" where
  "table_skew T c sq =
     (if c = WHITE then T ! (63 - sq) - T ! square_mirror sq
      else T ! (63 - square_mirror sq) - T ! sq)"

definition queen_skew :: "'x board \<Rightarrow> int" where
  "queen_skew b =
     sum_list (map (\<lambda>sq. case piece_at b sq of
                            None \<Rightarrow> 0
                          | Some p \<Rightarrow> if piece_type p = QUEEN
                                       then table_skew QUEEN_TABLE (color p) sq else 0)
                 SQUARES)"

definition signed_value :: "'x board \<Rightarrow> nat \<Rightarrow> int" where
  "signed_value b sq =
     (case piece_at b sq of
        None \<Rightarrow> 0
      | Some p \<Rightarrow>
          (if color p = WHITE then 1 else - 1)
            * (PIECE_VALUES (piece_type p) + get_piece_square_value b p sq))"

definition left_right :: "int list \<Rightarrow> bool" where
  "left_right T = list_all (\<lambda>i. T ! (63 - i) = T ! square_mirror i) SQUARES"

definition shield_cell :: "'x board \<Rightarrow> color \<Rightarrow> int \<Rightarrow> int \<Rightarrow> int \<Rightarrow> int" where
  "shield_cell b c check_rank check_file bonus =
     (if 0 \<le> check_file \<and> check_file \<le> 7 \<and> 0 \<le> check_rank \<and> check_rank \<le> 7
      then (case piece_at b (nat (check_rank * 8 + check_file)) of
              Some p \<Rightarrow> if piece_type p = PAWN \<and> color p = c then bonus + 10 else bonus
            | None \<Rightarrow> bonus)
      else bonus)"


section \<open>Properties of the evaluator\<close>

lemma evaluate_mobility_board: "snd (evaluate_mobility R b) = b"
  by (simp add: evaluate_mobility_def Let_def)

lemma evaluate_board: "snd (evaluate R b) = b"
  by (simp add: evaluate_def Let_def split_beta evaluate_mobility_board)

text \<open>
  Claim C4. In a checkmate position \<^verbatim>\<open>evaluate\<close> returns -30000 when White is to move
  and 30000 when Black is to move; in a position that is not checkmate but is stalemate
  or has insufficient material it returns 0.
\<close>

theorem evaluate_terminal:
  "(is_checkmate R b \<and> turn b = WHITE \<longrightarrow> fst (evaluate R b) = -30000) \<and>
   (is_checkmate R b \<and> turn b = BLACK \<longrightarrow> fst (evaluate R b) = 30000) \<and>
   (\<not> is_checkmate R b \<and> (is_stalemate R b \<or> is_insufficient_material R b)
      \<longrightarrow> fst (evaluate R b) = 0)"
  by (simp add: evaluate_def)

theorem evaluate_terminal_witness:
  "fst (evaluate bare_rules (mated WHITE)) = -30000 \<and>
   fst (evaluate bare_rules (mated BLACK)) = 30000 \<and>
   fst (evaluate bare_rules stalemated) = 0 \<and>
   fst (evaluate bare_rules bare_kings) = 0"
  using evaluate_terminal [of bare_rules "mated WHITE"]
        evaluate_terminal [of bare_rules "mated BLACK"]
        evaluate_terminal [of bare_rules stalemated]
        evaluate_terminal [of bare_rules bare_kings]
  by (simp add: bare_rules_def scripted_def mated_def stalemated_def bare_kings_def place_def)

text \<open>
  Claim C9. \<^verbatim>\<open>evaluate\<close> leaves the session as it found it, so a second call on the
  unmodified position returns the value of the first; and its value does not change when
  the played moves, the undone moves, the engine's colour, the clock reading or the node
  counter of the session are replaced by others: it reads the position only, and draws no
  random number.
\<close>

theorem evaluate_deterministic:
  "(case evaluate_session R s of
      (v1, s1) \<Rightarrow> (case evaluate_session R s1 of (v2, s2) \<Rightarrow> v1 = v2 \<and> s1 = s \<and> s2 = s)) \<and>
   fst (evaluate_session R
          (s\<lparr>move_history := h, redo_stack := r, ai_color := a, start_time := t,
             nodes_searched := k\<rparr>))
     = fst (evaluate_session R s)"
proof -
  have same: "evaluate_session R s' = (fst (evaluate R (board s')), s')" for s' :: "'a engine"
    using evaluate_board [of R "board s'"]
    by (simp add: evaluate_session_def split_beta)
  show ?thesis
    by (simp add: same)
qed

section \<open>Properties of the quiescence search\<close>

lemma quiescence_loop_bounds:
  "alpha \<le> beta \<Longrightarrow>
     alpha \<le> fst (quiescence_loop rec ms alpha beta n) \<and>
     fst (quiescence_loop rec ms alpha beta n) \<le> beta"
proof (induction ms arbitrary: alpha n)
  case Nil
  then show ?case by simp
next
  case (Cons m ms)
  obtain r n' where r: "rec m (- beta) (- alpha) n = (r, n')"
    by (cases "rec m (- beta) (- alpha) n")
  show ?case
  proof (cases "beta \<le> - r")
    case True
    with Cons.prems r show ?thesis by simp
  next
    case False
    let ?a = "if alpha < - r then - r else alpha"
    have le: "?a \<le> beta" using False Cons.prems by auto
    have "alpha \<le> ?a" by auto
    with Cons.IH [OF le, of n'] r False show ?thesis
      by (auto simp: Let_def)
  qed
qed

text \<open>
  Claim C10. For bounds \<open>alpha \<le> beta\<close> the quiescence search is fail-hard: its score
  lies between \<open>alpha\<close> and \<open>beta\<close>, at every extra depth and whatever the node counter.
\<close>

theorem quiescence_fail_hard:
  "alpha \<le> beta \<Longrightarrow>
     alpha \<le> fst (quiescence R b alpha beta depth n) \<and>
     fst (quiescence R b alpha beta depth n) \<le> beta"
proof -
  assume ab: "alpha \<le> beta"
  define sp where "sp = stand_pat_of R b"
  define a where "a = (if alpha < sp then sp else alpha)"
  define loop where
    "loop = quiescence_loop (\<lambda>m a c k. quiescence R (push R b m) a c (depth + 1) k)
              (filter (is_capture R b) (legal_moves R b)) a beta (n + 1)"
  have unfolded:
    "quiescence R b alpha beta depth n =
       (if beta \<le> sp then (beta, n + 1) else if 4 < depth then (a, n + 1) else loop)"
    unfolding sp_def a_def loop_def
    by (subst quiescence.simps) (simp add: Let_def)
  have ge: "alpha \<le> a"
    by (simp add: a_def less_imp_le)
  show ?thesis
  proof (cases "beta \<le> sp")
    case True
    with ab show ?thesis by (simp add: unfolded)
  next
    case False
    then have le: "a \<le> beta"
      using ab by (simp add: a_def not_le less_imp_le)
    have "a \<le> fst loop \<and> fst loop \<le> beta"
      unfolding loop_def by (rule quiescence_loop_bounds [OF le])
    with False ge le show ?thesis
      by (auto simp: unfolded intro: order_trans)
  qed
qed

theorem quiescence_fail_hard_witness:
  "Fin 0 \<le> Fin 100 \<and>
   Fin 0 \<le> fst (quiescence pawn_ending_rules pawn_ending (Fin 0) (Fin 100) 0 0) \<and>
   fst (quiescence pawn_ending_rules pawn_ending (Fin 0) (Fin 100) 0 0) \<le> Fin 100"
  using quiescence_fail_hard [of "Fin 0" "Fin 100" pawn_ending_rules pawn_ending 0 0]
  by simp

section \<open>Properties of the session operations\<close>

lemma pawn_ending_codes:
  "from_uci pawn_ending_rules ''zz'' = None"
  "from_uci pawn_ending_rules ''a8b8'' = Some (plain_move 56 57)"
  "from_uci pawn_ending_rules ''h6h5'' = Some (plain_move 47 39)"
  "legal_moves pawn_ending_rules (board (init_engine pawn_ending_rules)) = [plain_move 47 39]"
  by (simp_all add: pawn_ending_rules_def scripted_def script_from_uci_def parse_square_def
        FILE_NAMES_def RANK_NAMES_def init_engine_def pawn_ending_def place_def side_moves_def
        pawn_ending_script_def)






text \<open>
  Claim C8. Whatever \<^verbatim>\<open>get_best_move_for_fen\<close> returns (a move, nothing for a notation
  that does not parse, or an exception), the session's position, played moves and undone
  moves are afterwards what they were before the call.
\<close>

theorem get_best_move_for_fen_frame:
  "board (snd (get_best_move_for_fen R out s fen depth)) = board s \<and>
   move_history (snd (get_best_move_for_fen R out s fen depth)) = move_history s \<and>
   redo_stack (snd (get_best_move_for_fen R out s fen depth)) = redo_stack s"
  by (simp add: get_best_move_for_fen_def Let_def split_beta)

section \<open>The endgame test\<close>

lemma length_pieces:
  "length (pieces b pt c) = card {sq. sq < 64 \<and> piece_at b sq = Some (Piece pt c)}"
proof -
  have "{x. piece_at b x = Some (Piece pt c)} \<inter> set SQUARES
          = {sq. sq < 64 \<and> piece_at b sq = Some (Piece pt c)}"
    by (auto simp: SQUARES_def)
  then show ?thesis
    by (simp add: pieces_def distinct_length_filter SQUARES_def)
qed

lemma queen_count_pieces:
  "queen_count b = length (pieces b QUEEN WHITE) + length (pieces b QUEEN BLACK)"
proof -
  let ?W = "{sq. sq < 64 \<and> piece_at b sq = Some (Piece QUEEN WHITE)}"
  let ?B = "{sq. sq < 64 \<and> piece_at b sq = Some (Piece QUEEN BLACK)}"
  have split: "{sq. sq < 64 \<and> (\<exists>c. piece_at b sq = Some (Piece QUEEN c))} = ?W \<union> ?B"
    by (auto intro: color.exhaust)
  have "finite ?W" "finite ?B" "?W \<inter> ?B = {}"
    by auto
  then have "card (?W \<union> ?B) = card ?W + card ?B"
    by (rule card_Un_disjoint)
  then show ?thesis
    by (simp add: queen_count_def split length_pieces)
qed

lemma minor_count_pieces:
  "minor_count b c = length (pieces b KNIGHT c) + length (pieces b BISHOP c)"
proof -
  let ?N = "{sq. sq < 64 \<and> piece_at b sq = Some (Piece KNIGHT c)}"
  let ?B = "{sq. sq < 64 \<and> piece_at b sq = Some (Piece BISHOP c)}"
  have split: "{sq. sq < 64 \<and> (piece_at b sq = Some (Piece KNIGHT c) \<or>
                                piece_at b sq = Some (Piece BISHOP c))} = ?N \<union> ?B"
    by auto
  have "finite ?N" "finite ?B" "?N \<inter> ?B = {}"
    by auto
  then have "card (?N \<union> ?B) = card ?N + card ?B"
    by (rule card_Un_disjoint)
  then show ?thesis
    by (simp add: minor_count_def split length_pieces)
qed

lemma lone_queen_counts:
  "length (pieces lone_queen QUEEN WHITE) = 1"
  "length (pieces lone_queen QUEEN BLACK) = 0"
  "length (pieces lone_queen KNIGHT WHITE) = 0"
  "length (pieces lone_queen BISHOP WHITE) = 0"
  "length (pieces lone_queen KNIGHT BLACK) = 0"
  "length (pieces lone_queen BISHOP BLACK) = 0"
  by code_simp+

lemma two_queens_counts:
  "length (pieces two_queens QUEEN WHITE) = 1"
  "length (pieces two_queens QUEEN BLACK) = 1"
  "length (pieces two_queens KNIGHT WHITE) = 0"
  "length (pieces two_queens BISHOP WHITE) = 0"
  "length (pieces two_queens KNIGHT BLACK) = 0"
  "length (pieces two_queens BISHOP BLACK) = 0"
  by code_simp+

text \<open>
  Claim C5 says that the endgame test holds exactly when all queens are off the board, or
  queens are present and each side has at most two minor pieces. With a single queen on
  the board and no minor piece (White Ke1, Qd1; Black Ke8) the condition of the claim
  holds and \<^verbatim>\<open>is_endgame\<close> is false.
\<close>

theorem is_endgame_counterexample:
  "\<not> (is_endgame lone_queen \<longleftrightarrow> endgame_as_specified lone_queen)"
  by (simp add: is_endgame_def endgame_as_specified_def queen_count_pieces
        minor_count_pieces lone_queen_counts)

text \<open>
  Claim C5, amended. \<^verbatim>\<open>is_endgame\<close> holds exactly when no queen is on the board, or
  exactly two queens are on the board (of whichever colours) and the two sides together
  have at most two minor pieces. Whenever it holds, the condition of the claim holds too;
  the converse fails.
\<close>

theorem is_endgame_counts:
  "(is_endgame b \<longleftrightarrow>
      queen_count b = 0 \<or>
      (queen_count b = 2 \<and> minor_count b WHITE + minor_count b BLACK \<le> 2)) \<and>
   (is_endgame b \<longrightarrow> endgame_as_specified b)"
  by (auto simp: is_endgame_def endgame_as_specified_def queen_count_pieces
        minor_count_pieces Let_def)

theorem is_endgame_counts_witness:
  "is_endgame two_queens \<and> endgame_as_specified two_queens \<and> queen_count two_queens = 2"
  using is_endgame_counts [of two_queens]
  by (simp add: queen_count_pieces minor_count_pieces two_queens_counts)

section \<open>Properties of the search and of the move selection\<close>

lemma max_loop_best:
  "max_loop rec ms alpha beta max_eval best n = (v, bm, n') \<Longrightarrow>
     bm = best \<or> (\<exists>m \<in> set ms. bm = Some m)"
proof (induction ms arbitrary: alpha max_eval best n)
  case Nil
  then show ?case by simp
next
  case (Cons m ms)
  obtain e k where r: "rec m alpha beta n = (e, k)"
    by (cases "rec m alpha beta n")
  show ?case
  proof (cases "beta \<le> max alpha e")
    case True
    with Cons.prems r show ?thesis
      by (auto simp: Let_def split: if_splits)
  next
    case False
    with Cons.prems r
    have "max_loop rec ms (max alpha e) beta (if max_eval < e then e else max_eval)
            (if max_eval < e then Some m else best) k = (v, bm, n')"
      by (simp add: Let_def split: if_splits)
    from Cons.IH [OF this] show ?thesis
      by (auto split: if_splits)
  qed
qed

lemma min_loop_best:
  "min_loop rec ms alpha beta min_eval best n = (v, bm, n') \<Longrightarrow>
     bm = best \<or> (\<exists>m \<in> set ms. bm = Some m)"
proof (induction ms arbitrary: beta min_eval best n)
  case Nil
  then show ?case by simp
next
  case (Cons m ms)
  obtain e k where r: "rec m alpha beta n = (e, k)"
    by (cases "rec m alpha beta n")
  show ?case
  proof (cases "min beta e \<le> alpha")
    case True
    with Cons.prems r show ?thesis
      by (auto simp: Let_def split: if_splits)
  next
    case False
    with Cons.prems r
    have "min_loop rec ms alpha (min beta e) (if e < min_eval then e else min_eval)
            (if e < min_eval then Some m else best) k = (v, bm, n')"
      by (simp add: Let_def split: if_splits)
    from Cons.IH [OF this] show ?thesis
      by (auto split: if_splits)
  qed
qed

lemma set_order_moves: "set (order_moves R b ms) = set ms"
  by (simp add: order_moves_def image_image)

lemma minimax_best_legal:
  assumes "minimax R ex b depth alpha beta maximizing n = (v, Some m, n')"
  shows "m \<in> set (legal_moves R b)"
proof -
  from assms have
    "\<exists>rec e0. (max_loop rec (order_moves R b (legal_moves R b)) alpha beta e0 None (n + 1)
                 = (v, Some m, n')
              \<or> min_loop rec (order_moves R b (legal_moves R b)) alpha beta e0 None (n + 1)
                 = (v, Some m, n'))"
    by (subst (asm) minimax.simps) (auto simp: Let_def split: if_splits prod.splits)
  then show ?thesis
    using max_loop_best min_loop_best set_order_moves by fastforce
qed

lemma choice_member: "xs \<noteq> [] \<Longrightarrow> \<exists>x \<in> set xs. choice k xs = Inr x"
  by (simp add: choice_def)

lemma english_lines: "map_of ENGLISH_OPENING k = Some moves \<Longrightarrow> moves \<noteq> []"
  by (drule map_of_SomeD) (auto simp: ENGLISH_OPENING_def)

lemma modern_lines: "map_of MODERN_DEFENSE k = Some moves \<Longrightarrow> moves \<noteq> []"
  by (drule map_of_SomeD) (auto simp: MODERN_DEFENSE_def)

lemma get_thematic_move_returns: "\<exists>r. get_thematic_move R out s pool = Inr r"
proof (cases "map (uci R)
              (filter (\<lambda>m. uci R m \<in> set pool \<and>
                           fst (evaluate R (push R (board s) m)) * perspective (ai_color s)
                             \<ge> safety_threshold s)
                 (legal_moves R (board s))) = []")
  case True
  then show ?thesis by (simp add: get_thematic_move_def)
next
  case False
  from choice_member [OF this, of "thematic_pick out"] show ?thesis
    by (auto simp: get_thematic_move_def Let_def)
qed

lemma get_opening_move_returns: "\<exists>r. get_opening_move R out s = Inr r"
proof -
  have book: "\<exists>r. map_sum id Some (choice k moves) = Inr r" if "moves \<noteq> []"
    for k and moves :: "string list"
    using choice_member [OF that, of k] by auto
  show ?thesis
    using get_thematic_move_returns [of R out s]
    by (auto simp: get_opening_move_def Let_def split: option.splits
             dest!: english_lines modern_lines intro: book)
qed

lemma fallback_move_cases:
  "(legal_moves R b \<noteq> [] \<longrightarrow>
      (\<exists>m. fallback_move R out b best = Inr (Some m) \<and>
           (best = Some m \<or> m \<in> set (legal_moves R b)))) \<and>
   (legal_moves R b = [] \<longrightarrow> fallback_move R out b best = Inr best)"
proof (cases best)
  case None
  show ?thesis
  proof (cases "legal_moves R b = []")
    case True
    with None show ?thesis by (simp add: fallback_move_def)
  next
    case False
    from choice_member [OF this, of "fallback_pick out"] None False show ?thesis
      by (auto simp: fallback_move_def)
  qed
next
  case (Some m)
  then show ?thesis by (simp add: fallback_move_def)
qed

lemma safety_net_legal:
  "m \<in> set (legal_moves R (board s)) \<Longrightarrow> safety_net R s m \<in> set (legal_moves R (board s))"
proof -
  assume m: "m \<in> set (legal_moves R (board s))"
  define safe where
    "safe = filter (\<lambda>(eval_after, m). eval_after \<ge> safety_threshold s)
              (map (\<lambda>m. (fst (evaluate R (push R (board s) m)) * perspective (ai_color s), m))
                 (legal_moves R (board s)))"
  have snd_safe: "snd ` set safe \<subseteq> set (legal_moves R (board s))"
    by (auto simp: safe_def)
  have "case sort_key (\<lambda>(eval_after, m). - eval_after) safe of
          [] \<Rightarrow> True | (e, m') # _ \<Rightarrow> m' \<in> set (legal_moves R (board s))"
  proof (cases "sort_key (\<lambda>(eval_after, m). - eval_after) safe")
    case Nil
    then show ?thesis by simp
  next
    case (Cons p ps)
    then have "p \<in> set (sort_key (\<lambda>(eval_after, m). - eval_after) safe)"
      by simp
    then have "p \<in> set safe"
      by simp
    with snd_safe Cons show ?thesis
      by (cases p) auto
  qed
  with m show ?thesis
    unfolding safety_net_def Let_def safe_def [symmetric]
    by (auto split: list.splits)
qed

lemma pawn_ending_selected:
  "fst (get_best_move pawn_ending_rules calm (init_engine pawn_ending_rules) 2)
     = Inr (Some ''h6h5'')"
  by code_simp

text \<open>
  Claim C1. Take a position in which the library offers a legal move unless the game is
  over, and whose legal moves are not the null move and are read back from their own
  codes. Then, for every depth, every answer of the clock and every random draw,
  \<^verbatim>\<open>get_best_move\<close> raises nothing, returns none exactly when the game is over, and a
  code it returns (from the book, the thematic pool, the search, the random fallback or
  the safety net) is the code of a move of the legal-move list.
\<close>

theorem get_best_move_legal:
  assumes nonempty: "\<not> is_game_over R (board s) \<Longrightarrow> legal_moves R (board s) \<noteq> []"
      and codes: "\<forall>m \<in> set (legal_moves R (board s)).
                    move_bool m \<and> from_uci R (uci R m) = Some m"
  shows "(fst (get_best_move R out s depth) = Inr None \<longleftrightarrow> is_game_over R (board s)) \<and>
         (\<forall>e. fst (get_best_move R out s depth) \<noteq> Inl e) \<and>
         (\<forall>code. fst (get_best_move R out s depth) = Inr (Some code) \<longrightarrow>
            (\<exists>m \<in> set (legal_moves R (board s)). from_uci R code = Some m))"
proof (cases "is_game_over R (board s)")
  case True
  then show ?thesis by (simp add: get_best_move_def)
next
  case False
  note legal = nonempty [OF False]
  obtain opm where op: "get_opening_move R out s = Inr opm"
    using get_opening_move_returns by blast
  show ?thesis
  proof (cases "opening_accepted R (board s) opm")
    case True
    then obtain code m where "opm = Some code" "from_uci R code = Some m"
        "m \<in> set (legal_moves R (board s))"
      by (auto simp: opening_accepted_def split: option.splits)
    with False op True show ?thesis
      by (simp add: get_best_move_def)
  next
    case rejected: False
    obtain v bm n where mm:
      "minimax R (expired out) (board s) (nat (max 1 (min 5 depth))) MInf PInf
         (turn (board s) = WHITE) 0 = (v, bm, n)"
      by (cases "minimax R (expired out) (board s) (nat (max 1 (min 5 depth))) MInf PInf
                   (turn (board s) = WHITE) 0") auto
    define s' where "s' = s\<lparr>start_time := now out, nodes_searched := n\<rparr>"
    have board': "board s' = board s" and color': "ai_color s' = ai_color s"
      by (simp_all add: s'_def)
    from fallback_move_cases [of R "board s" out bm] legal
    obtain m where fb: "fallback_move R out (board s) bm = Inr (Some m)"
        and m_from: "bm = Some m \<or> m \<in> set (legal_moves R (board s))"
      by auto
    have m_legal: "m \<in> set (legal_moves R (board s))"
      using m_from mm minimax_best_legal by blast
    define chosen where
      "chosen = (if move_bool m \<and> ai_color s' \<noteq> None then safety_net R s' m else m)"
    have chosen_legal: "chosen \<in> set (legal_moves R (board s))"
      using m_legal safety_net_legal [of m R s'] by (simp add: chosen_def board')
    then have good: "move_bool chosen" "from_uci R (uci R chosen) = Some chosen"
      using codes by auto
    have "fst (get_best_move R out s depth) = Inr (Some (uci R chosen))"
      using False op rejected mm fb good m_legal codes
      unfolding chosen_def
      by (auto simp: get_best_move_def Let_def s'_def [symmetric] board' color')
    with chosen_legal good False show ?thesis
      by auto
  qed
qed

theorem get_best_move_legal_witness:
  "fst (get_best_move pawn_ending_rules calm (init_engine pawn_ending_rules) 2)
     = Inr (Some ''h6h5'') \<and>
   from_uci pawn_ending_rules ''h6h5'' = Some (plain_move 47 39) \<and>
   legal_moves pawn_ending_rules (board (init_engine pawn_ending_rules)) = [plain_move 47 39] \<and>
   \<not> is_game_over pawn_ending_rules (board (init_engine pawn_ending_rules)) \<and>
   is_game_over bare_rules stalemated \<and>
   fst (get_best_move bare_rules calm ((init_engine bare_rules)\<lparr>board := stalemated\<rparr>) 2)
     = Inr None"
proof -
  let ?R = pawn_ending_rules
  let ?s = "init_engine ?R"
  let ?t = "(init_engine bare_rules)\<lparr>board := stalemated\<rparr>"
  have live: "\<not> is_game_over ?R (board ?s)"
    by (simp add: pawn_ending_rules_def scripted_def init_engine_def pawn_ending_def
          place_def pawn_ending_script_def)
  have h1: "\<not> is_game_over ?R (board ?s) \<Longrightarrow> legal_moves ?R (board ?s) \<noteq> []"
    by (simp add: pawn_ending_codes)
  have h2: "\<forall>m \<in> set (legal_moves ?R (board ?s)).
              move_bool m \<and> from_uci ?R (uci ?R m) = Some m"
    by (simp add: pawn_ending_codes)
       (simp add: pawn_ending_rules_def scripted_def script_uci_def script_from_uci_def
          square_name_def parse_square_def plain_move_def move_bool_def FILE_NAMES_def
          RANK_NAMES_def)
  have over: "is_game_over bare_rules stalemated"
    by (simp add: bare_rules_def scripted_def stalemated_def place_def)
  have none: "legal_moves bare_rules stalemated = []"
    by (simp add: bare_rules_def scripted_def stalemated_def place_def side_moves_def)
  have k1: "\<not> is_game_over bare_rules (board ?t) \<Longrightarrow> legal_moves bare_rules (board ?t) \<noteq> []"
    using over by simp
  have k2: "\<forall>m \<in> set (legal_moves bare_rules (board ?t)).
              move_bool m \<and> from_uci bare_rules (uci bare_rules m) = Some m"
    by (simp add: none)
  show ?thesis
    using get_best_move_legal [OF h1 h2, of calm 2] get_best_move_legal [OF k1 k2, of calm 2]
          live over pawn_ending_selected pawn_ending_codes
    by simp
qed

text \<open>
  At a leaf where Black is to move and the deadline has not passed, \<^verbatim>\<open>minimax\<close> returns at
  most \<open>- alpha\<close>: \<^verbatim>\<open>quiescence\<close> keeps its score above the \<open>alpha\<close> it is given, and
  \<^verbatim>\<open>minimax\<close> negates that score. So once a maximizing node has raised \<open>alpha\<close> above 0,
  no later leaf of this kind can raise its maximum, whatever the leaf is worth.
\<close>

lemma bound_neg_mono: "a \<le> b \<Longrightarrow> - b \<le> - (a::bound)"
  by (cases a; cases b) simp_all

lemma quiescence_at_least:
  assumes "alpha \<le> beta"
  shows "alpha \<le> fst (quiescence R b alpha beta depth n)"
proof -
  define sp where "sp = stand_pat_of R b"
  define a where "a = (if alpha < sp then sp else alpha)"
  have ge: "alpha \<le> a"
    by (simp add: a_def less_imp_le)
  show ?thesis
  proof (cases "beta \<le> sp")
    case True
    with assms show ?thesis
      by (subst quiescence.simps) (simp add: sp_def Let_def)
  next
    case False
    then have le: "a \<le> beta"
      using assms by (simp add: a_def not_le less_imp_le)
    from quiescence_loop_bounds [OF le] ge
    have "alpha \<le> fst (quiescence_loop rec ms a beta k)" for rec ms k
      by (blast intro: order_trans)
    with False ge show ?thesis
      by (subst quiescence.simps) (simp add: sp_def [symmetric] a_def [symmetric] Let_def)
  qed
qed

lemma black_leaf_capped:
  assumes "turn b = BLACK" and "\<not> ex (n + 1)" and "alpha \<le> beta"
  shows "fst (minimax R ex b 0 alpha beta maximizing n) \<le> - alpha"
proof -
  have "fst (minimax R ex b 0 alpha beta maximizing n)
          = - fst (quiescence R b alpha beta 0 (n + 1))"
    using assms(1,2) by (subst minimax.simps) (simp add: split_beta)
  with bound_neg_mono [OF quiescence_at_least [OF assms(3)]] show ?thesis
    by simp
qed

lemma pawn_ending_pruned:
  "fst (minimax pawn_ending_rules never pawn_ending 2 MInf PInf False 0) = Fin 115"
  by code_simp

lemma pawn_ending_full:
  "full_minimax pawn_ending_rules pawn_ending 2 False = Fin 240"
  by code_simp

text \<open>
  Claim C2 says that at depth 2 or 3, within the time budget, the pruned search returns
  the score of the unpruned minimax. In the pawn ending, at depth 2, it does not. After
  the forced h6-h5 the ordered moves of White are Kd7, Kc6, Kd8, Kc8, Kxd6 with leaf values
  115, 115, 80, 0, 240. \<^verbatim>\<open>minimax\<close> hands its bounds, which are scores for White, to
  \<^verbatim>\<open>quiescence\<close> unchanged at a leaf where Black is to move, and \<^verbatim>\<open>quiescence\<close> reads
  them as scores for Black: once the first leaf has raised \<open>alpha\<close> to 115, every later
  leaf comes back as -115, and the search returns 115 where the minimax value is 240.
\<close>

theorem alpha_beta_divergence:
  "fst (minimax pawn_ending_rules never pawn_ending 2 MInf PInf False 0) = Fin 115 \<and>
   full_minimax pawn_ending_rules pawn_ending 2 False = Fin 240"
  by (simp add: pawn_ending_pruned pawn_ending_full)

section \<open>Evaluation of mirrored positions\<close>

lemma queen_positions_mirrored: "mirror_image bare_rules queen_h4 queen_h5"
  by code_simp

lemma queen_h4_value: "fst (evaluate bare_rules queen_h4) = 1010"
  by code_simp

lemma queen_h5_value: "fst (evaluate bare_rules queen_h5) = - 1005"
  by code_simp

text \<open>
  Claim C3 says that a position and its mirror image evaluate to opposite scores. For a
  white piece \<^verbatim>\<open>get_piece_square_value\<close> reads the table at \<open>63 - square\<close>, which reverses
  the file as well as the rank, and the queen's table is not the same read from the left and
  from the right: the white queen on h4 is worth 900 + 0, the black queen on h5 of the mirror
  image 900 - 5. The two evaluations are 1010 and -1005.
\<close>

theorem evaluate_mirror_asymmetry:
  "mirror_image bare_rules queen_h4 queen_h5 \<and>
   fst (evaluate bare_rules queen_h4) = 1010 \<and>
   fst (evaluate bare_rules queen_h5) = - 1005"
  by (simp add: queen_positions_mirrored queen_h4_value queen_h5_value)

section \<open>Mirror images evaluate to opposite scores, up to the queens\<close>

text \<open>
  Every table but the queen's reads the same from the left and from the right, so reading
  a white piece's table at \<open>63 - square\<close> makes no difference for it; mobility, king
  safety and the check bias change sign under the mirror image. What remains of the sum of
  the two evaluations is the difference the queen's table makes.
\<close>

lemma square_mirror_less: "sq < 64 \<Longrightarrow> square_mirror sq < 64"
  by (simp add: square_mirror_def)

lemma square_mirror_twice: "sq < 64 \<Longrightarrow> square_mirror (square_mirror sq) = sq"
  by (simp add: square_mirror_def)

lemma square_mirror_bij: "bij_betw square_mirror {0..<64} {0..<64}"
  by (rule bij_betw_byWitness [where f' = square_mirror])
     (auto simp: square_mirror_less square_mirror_twice)

lemma sum_squares_mirror:
  fixes f :: "nat \<Rightarrow> int"
  shows "sum_list (map (\<lambda>sq. f (square_mirror sq)) SQUARES) = sum_list (map f SQUARES)"
proof -
  have "sum_list (map (\<lambda>sq. f (square_mirror sq)) SQUARES)
          = (\<Sum>sq \<in> {0..<64}. f (square_mirror sq))"
    by (simp add: SQUARES_def sum_list_distinct_conv_sum_set)
  also have "\<dots> = (\<Sum>sq \<in> {0..<64}. f sq)"
    by (rule sum.reindex_bij_betw [OF square_mirror_bij])
  also have "\<dots> = sum_list (map f SQUARES)"
    by (simp add: SQUARES_def sum_list_distinct_conv_sum_set)
  finally show ?thesis .
qed

lemma material_fold:
  "fold (\<lambda>square score.
        case piece_at b square of
          None \<Rightarrow> score
        | Some p \<Rightarrow>
            let v = PIECE_VALUES (piece_type p) + get_piece_square_value b p square
            in if color p = WHITE then score + v else score - v) xs a
     = a + sum_list (map (signed_value b) xs)"
  by (induction xs arbitrary: a) (auto simp: signed_value_def Let_def split: option.splits)

lemma material_sum: "material b = sum_list (map (signed_value b) SQUARES)"
  by (simp add: material_def material_fold)

lemma mirror_pieces:
  "mirror_image R b b' \<Longrightarrow> sq < 64 \<Longrightarrow>
     piece_at b' sq = map_option swap_color (piece_at b (square_mirror sq))"
  by (simp add: mirror_image_def list_all_iff SQUARES_def)

lemma other_other: "other (other c) = c"
  by (cases c) (simp_all add: other_def)

lemma swap_color_eq: "swap_color p = Piece pt c \<longleftrightarrow> p = Piece pt (other c)"
proof (cases p)
  case (Piece t d)
  then show ?thesis
    by (cases d; cases c) (simp_all add: swap_color_def other_def)
qed

lemma pieces_mirror:
  assumes "mirror_image R b b'"
  shows "length (pieces b' pt c) = length (pieces b pt (other c))"
proof -
  let ?A = "{sq. sq < 64 \<and> piece_at b sq = Some (Piece pt (other c))}"
  have "{sq. sq < 64 \<and> piece_at b' sq = Some (Piece pt c)} = square_mirror ` ?A"
  proof (rule set_eqI)
    fix sq
    show "sq \<in> {sq. sq < 64 \<and> piece_at b' sq = Some (Piece pt c)} \<longleftrightarrow> sq \<in> square_mirror ` ?A"
    proof
      assume "sq \<in> {sq. sq < 64 \<and> piece_at b' sq = Some (Piece pt c)}"
      then have lt: "sq < 64" and "piece_at b' sq = Some (Piece pt c)"
        by auto
      then have "piece_at b (square_mirror sq) = Some (Piece pt (other c))"
        using mirror_pieces [OF assms lt] by (auto simp: swap_color_eq)
      then have "square_mirror sq \<in> ?A"
        using lt by (simp add: square_mirror_less)
      then have "square_mirror (square_mirror sq) \<in> square_mirror ` ?A"
        by (rule imageI)
      then show "sq \<in> square_mirror ` ?A"
        using lt by (simp add: square_mirror_twice)
    next
      assume "sq \<in> square_mirror ` ?A"
      then obtain q where q: "q < 64" "piece_at b q = Some (Piece pt (other c))"
          and sq: "sq = square_mirror q"
        by auto
      have "piece_at b' sq = map_option swap_color (piece_at b (square_mirror sq))"
        using mirror_pieces [OF assms] q sq by (simp add: square_mirror_less)
      then show "sq \<in> {sq. sq < 64 \<and> piece_at b' sq = Some (Piece pt c)}"
        using q sq
        by (simp add: square_mirror_less square_mirror_twice swap_color_def other_other)
    qed
  qed
  moreover have "inj_on square_mirror ?A"
    by (rule inj_on_inverseI [where g = square_mirror]) (simp add: square_mirror_twice)
  ultimately show ?thesis
    by (simp add: length_pieces card_image)
qed

lemma is_endgame_mirror:
  assumes "mirror_image R b b'"
  shows "is_endgame b' = is_endgame b"
proof -
  have W: "length (pieces b' pt WHITE) = length (pieces b pt BLACK)" for pt
    using pieces_mirror [OF assms, of pt WHITE] by (simp add: other_def)
  have B: "length (pieces b' pt BLACK) = length (pieces b pt WHITE)" for pt
    using pieces_mirror [OF assms, of pt BLACK] by (simp add: other_def)
  show ?thesis
    unfolding is_endgame_def Let_def W B by (simp only: add.commute add.left_commute)
qed

lemma left_right_pawn: "left_right PAWN_TABLE"
  by code_simp

lemma left_right_knight: "left_right KNIGHT_TABLE"
  by code_simp

lemma left_right_bishop: "left_right BISHOP_TABLE"
  by code_simp

lemma left_right_rook: "left_right ROOK_TABLE"
  by code_simp

lemma left_right_king_middle: "left_right KING_MIDDLE_TABLE"
  by code_simp

lemma left_right_king_end: "left_right KING_END_TABLE"
  by code_simp

lemmas left_right_tables =
  left_right_pawn left_right_knight left_right_bishop left_right_rook
  left_right_king_middle left_right_king_end

lemma left_right_skew: "left_right T \<Longrightarrow> sq < 64 \<Longrightarrow> table_skew T c sq = 0"
proof -
  assume T: "left_right T" and lt: "sq < 64"
  then have at: "T ! (63 - i) = T ! square_mirror i" if "i < 64" for i
    using that by (simp add: left_right_def list_all_iff SQUARES_def)
  from at [OF lt] at [OF square_mirror_less [OF lt]] lt show ?thesis
    by (simp add: table_skew_def square_mirror_twice)
qed

lemma table_of_mirror:
  assumes "mirror_image R b b'"
  shows "get_piece_square_value b' (swap_color p) sq'
           = (let table = (if piece_type p = KING
                           then (if is_endgame b then KING_END_TABLE else KING_MIDDLE_TABLE)
                           else (case piece_tables (piece_type p) of
                                   Some t \<Rightarrow> t | None \<Rightarrow> replicate 64 0))
              in if color p = WHITE then table ! sq' else table ! (63 - sq'))"
proof (cases p)
  case (Piece t d)
  then show ?thesis
    by (cases d)
       (simp_all add: get_piece_square_value_def swap_color_def other_def
          is_endgame_mirror [OF assms] Let_def)
qed

lemma piece_table_left_right:
  "left_right (if t = KING then (if e then KING_END_TABLE else KING_MIDDLE_TABLE)
               else (case piece_tables t of Some T \<Rightarrow> T | None \<Rightarrow> replicate 64 0))
   \<or> t = QUEEN"
  by (cases t) (simp_all add: left_right_tables)

lemma signed_value_mirror:
  assumes m: "mirror_image R b b'" and lt: "sq < 64"
  shows "signed_value b' (square_mirror sq) + signed_value b sq
           = (case piece_at b sq of
                None \<Rightarrow> 0
              | Some p \<Rightarrow> if piece_type p = QUEEN
                           then table_skew QUEEN_TABLE (color p) sq else 0)"
proof (cases "piece_at b sq")
  case None
  then show ?thesis
    using mirror_pieces [OF m square_mirror_less [OF lt]] lt
    by (simp add: signed_value_def square_mirror_twice)
next
  case (Some p)
  have there: "piece_at b' (square_mirror sq) = Some (swap_color p)"
    using mirror_pieces [OF m square_mirror_less [OF lt]] lt Some
    by (simp add: square_mirror_twice)
  define T where
    "T = (if piece_type p = KING
          then (if is_endgame b then KING_END_TABLE else KING_MIDDLE_TABLE)
          else (case piece_tables (piece_type p) of Some t \<Rightarrow> t | None \<Rightarrow> replicate 64 0))"
  have here: "get_piece_square_value b p sq
                = (if color p = WHITE then T ! (63 - sq) else T ! sq)"
    by (simp add: get_piece_square_value_def T_def Let_def)
  have mirrored: "get_piece_square_value b' (swap_color p) (square_mirror sq)
                = (if color p = WHITE then T ! square_mirror sq
                   else T ! (63 - square_mirror sq))"
    by (simp add: table_of_mirror [OF m] T_def Let_def)
  have sum: "signed_value b' (square_mirror sq) + signed_value b sq
               = table_skew T (color p) sq"
    using there Some here mirrored
    by (cases p; cases "color p")
       (simp_all add: signed_value_def swap_color_def other_def table_skew_def)
  show ?thesis
  proof (cases "piece_type p = QUEEN")
    case True
    then have "T = QUEEN_TABLE"
      by (simp add: T_def)
    with sum Some True show ?thesis
      by simp
  next
    case False
    then have "left_right T"
      using piece_table_left_right [of "piece_type p" "is_endgame b"] by (simp add: T_def)
    from left_right_skew [OF this lt] sum Some False show ?thesis
      by simp
  qed
qed

lemma material_mirror:
  assumes "mirror_image R b b'"
  shows "material b' + material b = queen_skew b"
proof -
  have "material b' = sum_list (map (\<lambda>sq. signed_value b' (square_mirror sq)) SQUARES)"
    by (simp add: material_sum sum_squares_mirror)
  then have "material b' + material b
               = sum_list (map (\<lambda>sq. signed_value b' (square_mirror sq) + signed_value b sq)
                             SQUARES)"
    by (simp add: material_sum sum_list_addf)
  also have "\<dots> = queen_skew b"
    unfolding queen_skew_def
    by (rule arg_cong [where f = sum_list], rule map_cong)
       (simp_all add: signed_value_mirror [OF assms] SQUARES_def)
  finally show ?thesis .
qed

lemma mobility_mirror:
  assumes "mirror_image R b b'"
  shows "fst (evaluate_mobility R b') = - fst (evaluate_mobility R b)"
  using assms by (simp add: evaluate_mobility_def mirror_image_def Let_def)

lemma shield_bonus_cells:
  "shield_bonus b c k =
     fold (\<lambda>file_offset.
             shield_cell b c (int (k div 8) + (if c = WHITE then 1 else - 1))
               (int (k mod 8) + file_offset))
       [- 1, 0, 1] 0"
  unfolding shield_bonus_def shield_cell_def Let_def ..

lemma mirror_cell_square:
  assumes m: "mirror_image R b b'"
      and inside: "0 \<le> cf" "cf \<le> 7" "0 \<le> cr" "cr \<le> 7"
  shows "piece_at b' (nat ((7 - cr) * 8 + cf))
           = map_option swap_color (piece_at b (nat (cr * 8 + cf)))"
proof -
  define r where "r = nat cr"
  define f where "f = nat cf"
  have rf: "cr = int r" "cf = int f" "r \<le> 7" "f < 8"
    using inside by (simp_all add: r_def f_def)
  have "(7 - cr) * 8 + cf = int ((7 - r) * 8 + f)"
    using rf by (simp add: of_nat_diff)
  then have up: "nat ((7 - cr) * 8 + cf) = (7 - r) * 8 + f"
    by (simp only: nat_int)
  have "cr * 8 + cf = int (r * 8 + f)"
    using rf by simp
  then have down: "nat (cr * 8 + cf) = r * 8 + f"
    by (simp only: nat_int)
  have lt: "(7 - r) * 8 + f < 64"
    using rf by simp
  have flip: "square_mirror ((7 - r) * 8 + f) = r * 8 + f"
    using rf by (simp add: square_mirror_def)
  from mirror_pieces [OF m lt] show ?thesis
    by (simp only: up down flip)
qed

lemma shield_cell_mirror:
  assumes m: "mirror_image R b b'"
  shows "shield_cell b' c (7 - cr) cf bonus = shield_cell b (other c) cr cf bonus"
proof (cases "0 \<le> cf \<and> cf \<le> 7 \<and> 0 \<le> cr \<and> cr \<le> 7")
  case True
  then have sq: "piece_at b' (nat ((7 - cr) * 8 + cf))
                   = map_option swap_color (piece_at b (nat (cr * 8 + cf)))"
    using mirror_cell_square [OF m] by simp
  have pawn: "(piece_type (swap_color p) = PAWN \<and> color (swap_color p) = c)
                \<longleftrightarrow> (piece_type p = PAWN \<and> color p = other c)" for p
    by (cases p; cases c; cases "color p") (simp_all add: swap_color_def other_def)
  show ?thesis
    using True sq
    by (cases "piece_at b (nat (cr * 8 + cf))")
       (simp_all add: shield_cell_def pawn)
next
  case False
  then show ?thesis
    by (auto simp: shield_cell_def)
qed

lemma shield_bonus_mirror:
  assumes m: "mirror_image R b b'" and lt: "k < 64"
  shows "shield_bonus b' c (square_mirror k) = shield_bonus b (other c) k"
proof -
  have fl: "square_mirror k mod 8 = k mod 8"
    by (simp add: square_mirror_def)
  have rank: "int (square_mirror k div 8) = 7 - int (k div 8)"
    using lt by (simp add: square_mirror_def)
  have step: "int (square_mirror k div 8) + (if c = WHITE then 1 else - 1)
                = 7 - (int (k div 8) + (if other c = WHITE then 1 else - 1))"
    by (cases c) (simp_all add: rank other_def)
  show ?thesis
    unfolding shield_bonus_cells fl step shield_cell_mirror [OF m] ..
qed

lemma pieces_member:
  "k \<in> set (pieces b pt c) \<longleftrightarrow> k < 64 \<and> piece_at b k = Some (Piece pt c)"
  by (simp add: pieces_def SQUARES_def)

lemma king_unique:
  assumes "length (pieces b KING c) \<le> 1"
  shows "king b c = Some k \<longleftrightarrow> k < 64 \<and> piece_at b k = Some (Piece KING c)"
proof (cases "pieces b KING c")
  case Nil
  have "k \<notin> set (pieces b KING c)"
    by (simp add: Nil)
  then have "\<not> (k < 64 \<and> piece_at b k = Some (Piece KING c))"
    by (simp add: pieces_member)
  moreover have "king b c = None"
    by (simp add: king_def Nil)
  ultimately show ?thesis
    by simp
next
  case (Cons x xs)
  with assms have one: "pieces b KING c = [x]"
    by simp
  have "k \<in> set (pieces b KING c) \<longleftrightarrow> k = x"
    by (simp add: one)
  then have "k < 64 \<and> piece_at b k = Some (Piece KING c) \<longleftrightarrow> k = x"
    by (simp add: pieces_member)
  moreover have "king b c = Some x"
    by (simp add: king_def one)
  ultimately show ?thesis
    by auto
qed

lemma king_mirror:
  assumes m: "mirror_image R b b'" and one: "length (pieces b KING (other c)) \<le> 1"
  shows "king b' c = map_option square_mirror (king b (other c))"
proof -
  have one': "length (pieces b' KING c) \<le> 1"
    using one by (simp add: pieces_mirror [OF m])
  show ?thesis
  proof (cases "king b (other c)")
    case None
    then have "pieces b KING (other c) = []"
      by (simp add: king_def split: list.splits)
    then have "pieces b' KING c = []"
      using pieces_mirror [OF m, of KING c] by simp
    with None show ?thesis
      by (simp add: king_def)
  next
    case (Some k)
    then have k: "k < 64" "piece_at b k = Some (Piece KING (other c))"
      using king_unique [OF one] by auto
    have "piece_at b' (square_mirror k) = Some (Piece KING c)"
      using mirror_pieces [OF m square_mirror_less [OF k(1)]] k
      by (simp add: square_mirror_twice swap_color_def other_other)
    then have "king b' c = Some (square_mirror k)"
      using king_unique [OF one'] k(1) by (simp add: square_mirror_less)
    with Some show ?thesis
      by simp
  qed
qed

lemma king_safety_sum:
  "evaluate_king_safety b =
     (case king b WHITE of None \<Rightarrow> 0 | Some k \<Rightarrow> shield_bonus b WHITE k)
     - (case king b BLACK of None \<Rightarrow> 0 | Some k \<Rightarrow> shield_bonus b BLACK k)"
  by (simp add: evaluate_king_safety_def split: option.splits)

lemma king_safety_mirror:
  assumes m: "mirror_image R b b'" and one: "\<forall>c. length (pieces b KING c) \<le> 1"
  shows "evaluate_king_safety b' = - evaluate_king_safety b"
proof -
  have W: "king b' WHITE = map_option square_mirror (king b BLACK)"
    using king_mirror [OF m, of WHITE] one by (simp add: other_def)
  have B: "king b' BLACK = map_option square_mirror (king b WHITE)"
    using king_mirror [OF m, of BLACK] one by (simp add: other_def)
  have lt: "k < 64" if "king b c = Some k" for c k
    using that king_unique [of b c k] one by simp
  have white: "(case king b' WHITE of None \<Rightarrow> 0 | Some k \<Rightarrow> shield_bonus b' WHITE k)
                 = (case king b BLACK of None \<Rightarrow> 0 | Some k \<Rightarrow> shield_bonus b BLACK k)"
  proof (cases "king b BLACK")
    case None
    then show ?thesis by (simp add: W)
  next
    case (Some k)
    with shield_bonus_mirror [OF m lt [OF Some], of WHITE] show ?thesis
      by (simp add: W other_def)
  qed
  have black: "(case king b' BLACK of None \<Rightarrow> 0 | Some k \<Rightarrow> shield_bonus b' BLACK k)
                 = (case king b WHITE of None \<Rightarrow> 0 | Some k \<Rightarrow> shield_bonus b WHITE k)"
  proof (cases "king b WHITE")
    case None
    then show ?thesis by (simp add: B)
  next
    case (Some k)
    with shield_bonus_mirror [OF m lt [OF Some], of BLACK] show ?thesis
      by (simp add: B other_def)
  qed
  show ?thesis
    by (simp only: king_safety_sum white black minus_diff_eq)
qed

lemma evaluate_general:
  "\<not> is_checkmate R b \<Longrightarrow> \<not> is_stalemate R b \<Longrightarrow> \<not> is_insufficient_material R b \<Longrightarrow>
     fst (evaluate R b)
       = material b + fst (evaluate_mobility R b)
         + (if is_endgame b then 0 else evaluate_king_safety b)
         + (if is_check R b then (if turn b = WHITE then - 30 else 30) else 0)"
  by (simp add: evaluate_def split_beta Let_def evaluate_mobility_board)

text \<open>
  For a position with at most one king of each colour and its mirror image, the two
  evaluations add up to nothing when the position is mate, stalemate or short of material,
  and to the queens' table differences otherwise.
\<close>

theorem evaluate_mirror_up_to_queens:
  assumes m: "mirror_image R b b'" and one: "\<forall>c. length (pieces b KING c) \<le> 1"
  shows "fst (evaluate R b') + fst (evaluate R b)
           = (if is_checkmate R b \<or> is_stalemate R b \<or> is_insufficient_material R b
              then 0 else queen_skew b)"
proof -
  from m have same:
    "is_checkmate R b' = is_checkmate R b" "is_stalemate R b' = is_stalemate R b"
    "is_insufficient_material R b' = is_insufficient_material R b"
    "is_check R b' = is_check R b" "turn b' = other (turn b)"
    by (simp_all add: mirror_image_def)
  show ?thesis
  proof (cases "is_checkmate R b")
    case True
    then show ?thesis
      by (cases "turn b") (simp_all add: evaluate_def same other_def)
  next
    case no_mate: False
    show ?thesis
    proof (cases "is_stalemate R b \<or> is_insufficient_material R b")
      case True
      with no_mate show ?thesis
        by (auto simp: evaluate_def same)
    next
      case False
      then have live: "\<not> is_checkmate R b" "\<not> is_stalemate R b"
          "\<not> is_insufficient_material R b"
        using no_mate by simp_all
      then have live': "\<not> is_checkmate R b'" "\<not> is_stalemate R b'"
          "\<not> is_insufficient_material R b'"
        by (simp_all add: same)
      have bias: "(if is_check R b' then (if turn b' = WHITE then - 30 else 30) else 0)
                    = - (if is_check R b then (if turn b = WHITE then - 30 else (30::int)) else 0)"
        by (cases "turn b") (simp_all add: same other_def)
      have safety: "(if is_endgame b' then 0 else evaluate_king_safety b')
                      = - (if is_endgame b then 0 else evaluate_king_safety b)"
        by (simp add: is_endgame_mirror [OF m] king_safety_mirror [OF m one])
      have "fst (evaluate R b') + fst (evaluate R b) = material b' + material b"
        unfolding evaluate_general [OF live] evaluate_general [OF live'] bias safety
          mobility_mirror [OF m]
        by simp
      with material_mirror [OF m] live show ?thesis
        by simp
    qed
  qed
qed

lemma queenless_skew:
  assumes "queen_count b = 0"
  shows "queen_skew b = 0"
proof -
  from assms have none: "pieces b QUEEN WHITE = []" "pieces b QUEEN BLACK = []"
    by (simp_all add: queen_count_pieces)
  have no_queen: "piece_at b sq \<noteq> Some (Piece QUEEN c)" if "sq < 64" for sq c
  proof
    assume "piece_at b sq = Some (Piece QUEEN c)"
    with that have "sq \<in> set (pieces b QUEEN c)"
      by (simp add: pieces_member)
    with none show False
      by (cases c) simp_all
  qed
  have "(case piece_at b sq of
           None \<Rightarrow> 0
         | Some p \<Rightarrow> if piece_type p = QUEEN
                      then table_skew QUEEN_TABLE (color p) sq else 0) = 0"
    if "sq < 64" for sq
  proof (cases "piece_at b sq")
    case None
    then show ?thesis by simp
  next
    case (Some p)
    with no_queen [OF that, of "color p"] show ?thesis
      by (cases p) auto
  qed
  then have "map (\<lambda>sq. case piece_at b sq of
                          None \<Rightarrow> 0
                        | Some p \<Rightarrow> if piece_type p = QUEEN
                                     then table_skew QUEEN_TABLE (color p) sq else 0) SQUARES
               = map (\<lambda>sq. 0::int) SQUARES"
    by (intro map_cong refl) (simp add: SQUARES_def)
  then show ?thesis
    unfolding queen_skew_def by (simp only: sum_list_0)
qed

text \<open>Without queens on the board the two evaluations are opposite.\<close>

corollary evaluate_mirror_queenless:
  assumes "mirror_image R b b'" and "\<forall>c. length (pieces b KING c) \<le> 1"
      and "queen_count b = 0"
  shows "fst (evaluate R b') = - fst (evaluate R b)"
  using evaluate_mirror_up_to_queens [OF assms(1,2)] queenless_skew [OF assms(3)]
  by (simp split: if_splits)

lemma queen_h4_skew: "queen_skew queen_h4 = 5"
  by code_simp

end
